theory Spec2Isabelle
  imports Main "HOL-Library.Product_Lexorder" "HOL-Library.Multiset"
begin

section \<open>The schedule manager of \<^verbatim>\<open>src/main.py\<close>\<close>

text \<open>
  The availability engine of the schedule manager: a process-wide store of busy
  intervals per person (\<^verbatim>\<open>SCHEDULES\<close>), the resolver \<^verbatim>\<open>get_free_slots\<close>, the
  intersection fold inside \<^verbatim>\<open>find_common_free_time\<close>, and the formatting of the
  results.

  Modelling decisions.
  \<^item> Python's \<^verbatim>\<open>int\<close> is unbounded: hours are \<^typ>\<open>int\<close>. A tuple \<^verbatim>\<open>(start, end)\<close>
    is a pair.
  \<^item> The dictionary \<^verbatim>\<open>SCHEDULES\<close> is a map from names to lists. Each list is created
    by \<^verbatim>\<open>SCHEDULES[name] = []\<close>, so no two keys share a list object; the only
    aliasing is between a stored list and the argument \<^verbatim>\<open>busy\<close> of
    \<^verbatim>\<open>get_free_slots\<close>, and it is written out: functions that touch the store take
    it and return it.
  \<^item> \<^verbatim>\<open>busy.sort()\<close> sorts the list object it is called on, in place. Tuples of
    integers are compared lexicographically, which is the order of
    \<^verbatim>\<open>HOL-Library.Product_Lexorder\<close>; equal tuples are indistinguishable, so the
    stability of the sort is not observable.
  \<^item> \<^verbatim>\<open>all_free_slots[0]\<close> raises \<^verbatim>\<open>IndexError\<close> on the empty list and
    \<^verbatim>\<open>SCHEDULES[name]\<close> raises \<^verbatim>\<open>KeyError\<close> on a missing key: results are sums,
    with \<open>Inl\<close> the error.
  \<^item> Converting an integer to its decimal string, as the f-strings do, raises
    \<^verbatim>\<open>ValueError\<close> when the integer has more digits than the interpreter's limit,
    \<^verbatim>\<open>sys.get_int_max_str_digits()\<close>. The model fixes the limit at CPython's default,
    4300 digits, the sign not counted.
  \<^item> A Python \<^verbatim>\<open>str\<close> is modelled by its UTF-8 bytes as a \<^typ>\<open>string\<close>. The only
    character outside ASCII is the en dash U+2013 of the format strings.
\<close>

subsection \<open>Data\<close>

type_synonym interval = "int \<times> int"

type_synonym schedules = "string \<rightharpoonup> interval list"

datatype error = IndexError | KeyError | ValueError

definition WORK_START :: int where
  "WORK_START = 9"

definition WORK_END :: int where
  "WORK_END = 18"

subsection \<open>Formatting\<close>

text \<open>The en dash U+2013, as its three UTF-8 bytes.\<close>

definition en_dash :: string where
  "en_dash = [CHR 0xE2, CHR 0x80, CHR 0x93]"

text \<open>Python's decimal rendering of an integer inside an f-string.\<close>

definition digit_char :: "nat \<Rightarrow> char" where
  "digit_char d = ''0123456789'' ! d"

fun str_nat :: "nat \<Rightarrow> string" where
  "str_nat n = (if n < 10 then [digit_char n] else str_nat (n div 10) @ [digit_char (n mod 10)])"

declare str_nat.simps [simp del]

definition decimal :: "int \<Rightarrow> string" where
  "decimal i = (if i < 0 then CHR ''-'' # str_nat (nat (- i)) else str_nat (nat i))"

text \<open>
  The interpreter's default limit on the digits of an integer that is converted to a
  string. An integer has more than \<open>n\<close> decimal digits when its absolute value is
  \<open>10 ^ n\<close> or more.
\<close>

definition MAX_STR_DIGITS :: nat where
  "MAX_STR_DIGITS = 4300"

definition str_int :: "int \<Rightarrow> error + string" where
  "str_int i = (if 10 ^ MAX_STR_DIGITS \<le> \<bar>i\<bar> then Inl ValueError else Inr (decimal i))"

text \<open>\<^verbatim>\<open>f"{s}:00\u2013{e}:00"\<close>, where \<^verbatim>\<open>\u2013\<close> stands for the en dash of the source\<close>

definition format_slot :: "interval \<Rightarrow> error + string" where
  "format_slot = (\<lambda>(s, e).
     case str_int s of
       Inl err \<Rightarrow> Inl err
     | Inr s_str \<Rightarrow>
         (case str_int e of
            Inl err \<Rightarrow> Inl err
          | Inr e_str \<Rightarrow> Inr (s_str @ '':00'' @ en_dash @ e_str @ '':00'')))"

text \<open>
  The list comprehension \<^verbatim>\<open>[f"..." for s, e in common]\<close>: the first conversion that
  raises ends it.
\<close>

fun format_slots :: "interval list \<Rightarrow> error + string list" where
  "format_slots [] = Inr []"
| "format_slots (slot # common) =
     (case format_slot slot of
        Inl err \<Rightarrow> Inl err
      | Inr x \<Rightarrow>
          (case format_slots common of
             Inl err \<Rightarrow> Inl err
           | Inr xs \<Rightarrow> Inr (x # xs)))"

text \<open>\<^verbatim>\<open>sep.join(xs)\<close>\<close>

fun join :: "string \<Rightarrow> string list \<Rightarrow> string" where
  "join sep [] = []"
| "join sep [x] = x"
| "join sep (x # y # ys) = x @ sep @ join sep (y # ys)"

subsection \<open>The store: \<^verbatim>\<open>add_busy_time\<close>\<close>

text \<open>
  \<^verbatim>\<open>
  if name not in SCHEDULES:
      SCHEDULES[name] = []
  SCHEDULES[name].append((start, end))
  return f"Added busy time for {name}: {start}:00\u2013{end}:00"
  \<close>
\<close>

definition add_busy_time ::
  "schedules \<Rightarrow> string \<Rightarrow> int \<Rightarrow> int \<Rightarrow> schedules \<times> (error + string)" where
  "add_busy_time SCHEDULES name start end' =
     (let SCHEDULES1 = (if name \<notin> dom SCHEDULES then SCHEDULES(name \<mapsto> []) else SCHEDULES)
      in case SCHEDULES1 name of
           None \<Rightarrow> (SCHEDULES1, Inl KeyError)
         | Some busy \<Rightarrow>
             (SCHEDULES1(name \<mapsto> busy @ [(start, end')]),
              case format_slot (start, end') of
                Inl err \<Rightarrow> Inl err
              | Inr slot \<Rightarrow> Inr (''Added busy time for '' @ name @ '': '' @ slot)))"

subsection \<open>The resolver: \<^verbatim>\<open>get_free_slots\<close>\<close>

text \<open>
  The loop \<^verbatim>\<open>for start, end in busy\<close>, with its two variables \<^verbatim>\<open>free\<close> and
  \<^verbatim>\<open>current\<close>:
  \<^verbatim>\<open>
  if start > current:
      free.append((current, start))
  current = max(current, end)
  \<close>
\<close>

fun free_loop :: "interval list \<Rightarrow> interval list \<Rightarrow> int \<Rightarrow> interval list \<times> int" where
  "free_loop [] free current = (free, current)"
| "free_loop ((start, end') # busy) free current =
     free_loop busy (if start > current then free @ [(current, start)] else free)
       (max current end')"

text \<open>
  \<^verbatim>\<open>get_free_slots\<close> returns the free list; since \<^verbatim>\<open>busy.sort()\<close> changes the
  argument, the model returns the argument's new contents as well (first component).
\<close>

definition get_free_slots :: "interval list \<Rightarrow> interval list \<times> interval list" where
  "get_free_slots busy =
     (let busy1 = sort busy;
          (free, current) = free_loop busy1 [] WORK_START
      in (busy1, if current < WORK_END then free @ [(current, WORK_END)] else free))"

subsection \<open>The intersector: \<^verbatim>\<open>find_common_free_time\<close>\<close>

text \<open>
  The first loop, \<^verbatim>\<open>for member in members\<close>. \<^verbatim>\<open>SCHEDULES.get(member, [])\<close> is the
  stored list itself when the member has an entry (so the sort of \<^verbatim>\<open>get_free_slots\<close>
  is a write to the store) and a fresh empty list otherwise (no entry is created).
\<close>

fun collect_free_slots ::
  "schedules \<Rightarrow> string list \<Rightarrow> interval list list \<Rightarrow> schedules \<times> interval list list" where
  "collect_free_slots SCHEDULES [] all_free_slots = (SCHEDULES, all_free_slots)"
| "collect_free_slots SCHEDULES (member # members) all_free_slots =
     (case SCHEDULES member of
        None \<Rightarrow>
          (let (busy1, free) = get_free_slots []
           in collect_free_slots SCHEDULES members (all_free_slots @ [free]))
      | Some busy \<Rightarrow>
          (let (busy1, free) = get_free_slots busy
           in collect_free_slots (SCHEDULES(member \<mapsto> busy1)) members (all_free_slots @ [free])))"

text \<open>
  One round of the second loop: the nested loops over \<^verbatim>\<open>common\<close> and \<^verbatim>\<open>slots\<close>
  that build \<^verbatim>\<open>new_common\<close> by appending.
\<close>

definition intersect_slots :: "interval list \<Rightarrow> interval list \<Rightarrow> interval list" where
  "intersect_slots common slots =
     concat (map (\<lambda>(a_start, a_end).
       concat (map (\<lambda>(b_start, b_end).
         (let start = max a_start b_start; end' = min a_end b_end
          in if start < end' then [(start, end')] else [])) slots)) common)"

text \<open>
  \<^verbatim>\<open>common = all_free_slots[0]\<close>, which raises on the empty list, and the fold over
  \<^verbatim>\<open>all_free_slots[1:]\<close>.
\<close>

definition intersect_all :: "interval list list \<Rightarrow> error + interval list" where
  "intersect_all all_free_slots =
     (case all_free_slots of
        [] \<Rightarrow> Inl IndexError
      | first # rest \<Rightarrow> Inr (foldl intersect_slots first rest))"

text \<open>The value of \<^verbatim>\<open>common\<close> when the return statement is reached.\<close>

definition common_free_slots :: "schedules \<Rightarrow> string list \<Rightarrow> schedules \<times> (error + interval list)" where
  "common_free_slots SCHEDULES members =
     (let (SCHEDULES1, all_free_slots) = collect_free_slots SCHEDULES members []
      in (SCHEDULES1, intersect_all all_free_slots))"

definition find_common_free_time :: "schedules \<Rightarrow> string list \<Rightarrow> schedules \<times> (error + string list)" where
  "find_common_free_time SCHEDULES members =
     (case common_free_slots SCHEDULES members of
        (SCHEDULES1, Inl err) \<Rightarrow> (SCHEDULES1, Inl err)
      | (SCHEDULES1, Inr common) \<Rightarrow> (SCHEDULES1, format_slots common))"

subsection \<open>The announcement: \<^verbatim>\<open>meeting_message\<close>\<close>

definition no_common_message :: string where
  "no_common_message = ''No common free time found for all members today.''"

definition meeting_message :: "schedules \<Rightarrow> string list \<Rightarrow> schedules \<times> (error + string)" where
  "meeting_message SCHEDULES members =
     (case find_common_free_time SCHEDULES members of
        (SCHEDULES1, Inl err) \<Rightarrow> (SCHEDULES1, Inl err)
      | (SCHEDULES1, Inr free_slots) \<Rightarrow>
          (SCHEDULES1,
           Inr (if free_slots = [] then no_common_message
                else (let slots = join '', '' free_slots
                      in ''All members ('' @ join '', '' members
                         @ '') are available at the following times: '' @ slots
                         @ ''. Please confirm which slot works best.''))))"

subsection \<open>Predicates of the specification\<close>

text \<open>
  An Interval of the data model: hours of the day with \<open>0 \<le> start < end \<le> 24\<close>.
\<close>

definition well_formed :: "interval \<Rightarrow> bool" where
  "well_formed = (\<lambda>(start, end'). 0 \<le> start \<and> start < end' \<and> end' \<le> 24)"

text \<open>A busy interval clamped to the working day.\<close>

definition clamped :: "interval \<Rightarrow> bool" where
  "clamped = (\<lambda>(start, end'). WORK_START \<le> start \<and> start < end' \<and> end' \<le> WORK_END)"

definition non_empty :: "interval \<Rightarrow> bool" where
  "non_empty = (\<lambda>(start, end'). start < end')"

text \<open>The half-open range of an interval lies between \<open>lo\<close> and \<open>hi\<close>.\<close>

definition within :: "int \<Rightarrow> int \<Rightarrow> interval \<Rightarrow> bool" where
  "within lo hi = (\<lambda>(start, end'). lo \<le> start \<and> end' \<le> hi)"

text \<open>
  The ordering part of the FreeList invariant: every interval is non-empty and each
  interval ends no later than every later one starts. Start times are then strictly
  increasing (lemma \<open>free_list_inv_starts\<close>).
\<close>

definition free_list_inv :: "interval list \<Rightarrow> bool" where
  "free_list_inv free = (list_all non_empty free \<and> sorted_wrt (\<lambda>a b. snd a \<le> fst b) free)"

text \<open>
  What a person's entry resolves to: \<^verbatim>\<open>get_free_slots(SCHEDULES.get(member, []))\<close>.
\<close>

definition free_of :: "schedules \<Rightarrow> string \<Rightarrow> interval list" where
  "free_of SCHEDULES member =
     snd (get_free_slots (case SCHEDULES member of None \<Rightarrow> [] | Some busy \<Rightarrow> busy))"

text \<open>The store in which the entry of every listed member has been sorted.\<close>

definition sorted_entries :: "schedules \<Rightarrow> string list \<Rightarrow> schedules" where
  "sorted_entries SCHEDULES members =
     (\<lambda>name. if name \<in> set members then map_option sort (SCHEDULES name) else SCHEDULES name)"

text \<open>
  The intersection of two intervals as the inner loop body computes it, and the order
  "ends no later than the other starts"; both are used to state facts about
  \<open>intersect_slots\<close>.
\<close>

definition meet :: "interval \<Rightarrow> interval \<Rightarrow> interval" where
  "meet a b = (max (fst a) (fst b), min (snd a) (snd b))"

abbreviation (input) ends_before :: "interval \<Rightarrow> interval \<Rightarrow> bool" where
  "ends_before a b \<equiv> snd a \<le> fst b"

text \<open>The store after the four calls of the module's header comment.\<close>

definition alice_bob :: schedules where
  "alice_bob =
     fst (add_busy_time (fst (add_busy_time (fst (add_busy_time (fst (add_busy_time Map.empty
       ''Alice'' 10 11)) ''Alice'' 14 16)) ''Bob'' 9 10)) ''Bob'' 13 15)"

section \<open>Properties\<close>

subsection \<open>Evaluation on concrete inputs\<close>

text \<open>Integers of at most two digits are within the limit.\<close>

lemma within_limit: "\<bar>i\<bar> < 100 \<Longrightarrow> \<bar>i :: int\<bar> < 10 ^ MAX_STR_DIGITS"
proof -
  assume "\<bar>i\<bar> < 100"
  moreover have "(10::int) ^ 2 \<le> 10 ^ MAX_STR_DIGITS"
    by (rule power_increasing) (simp_all add: MAX_STR_DIGITS_def)
  ultimately show ?thesis by simp
qed

lemma str_int_small: "\<bar>i\<bar> < 100 \<Longrightarrow> str_int i = Inr (decimal i)"
  using within_limit [of i] by (simp add: str_int_def)

lemmas evals = find_common_free_time_def common_free_slots_def get_free_slots_def
  intersect_all_def intersect_slots_def format_slot_def str_int_small decimal_def
  str_nat.simps digit_char_def
  WORK_START_def WORK_END_def Let_def

lemma alice_bob_store:
  "alice_bob = [''Alice'' \<mapsto> [(10, 11), (14, 16)], ''Bob'' \<mapsto> [(9, 10), (13, 15)]]"
  by (simp add: alice_bob_def add_busy_time_def Let_def fun_upd_twist)

subsection \<open>The loop of \<^verbatim>\<open>get_free_slots\<close>\<close>

lemma get_free_slots_fst: "fst (get_free_slots busy) = sort busy"
  by (simp add: get_free_slots_def Let_def split: prod.splits)

lemma get_free_slots_snd:
  "snd (get_free_slots busy) =
     (let r = free_loop (sort busy) [] WORK_START
      in if snd r < WORK_END then fst r @ [(snd r, WORK_END)] else fst r)"
  by (simp add: get_free_slots_def Let_def split: prod.splits)

lemma get_free_slots_sort: "snd (get_free_slots (sort busy)) = snd (get_free_slots busy)"
  by (simp add: get_free_slots_def Let_def sorted_sort_id split: prod.splits)

lemma list_all_sort: "list_all P (sort xs) = list_all P xs"
  by (simp add: list_all_iff)

text \<open>\<^verbatim>\<open>current\<close> never decreases.\<close>

lemma free_loop_current_mono: "current \<le> snd (free_loop busy free current)"
proof (induction busy arbitrary: free current)
  case Nil
  show ?case by simp
next
  case (Cons b busy)
  obtain s e where b: "b = (s, e)" by (cases b)
  have "current \<le> max current e" by simp
  also have "\<dots> \<le> snd (free_loop (b # busy) free current)"
    unfolding b free_loop.simps by (rule Cons.IH)
  finally show ?case .
qed

text \<open>Only intervals with \<open>start < end\<close> are appended, whatever the busy list holds.\<close>

lemma free_loop_non_empty:
  "list_all non_empty free \<Longrightarrow> list_all non_empty (fst (free_loop busy free current))"
proof (induction busy arbitrary: free current)
  case Nil
  then show ?case by simp
next
  case (Cons b busy)
  obtain s e where b: "b = (s, e)" by (cases b)
  have "list_all non_empty (if s > current then free @ [(current, s)] else free)"
    using Cons.prems by (simp add: non_empty_def)
  then show ?case
    unfolding b free_loop.simps by (rule Cons.IH)
qed

text \<open>Appended intervals start at a value of \<^verbatim>\<open>current\<close>, hence not below its first value.\<close>

lemma free_loop_lower:
  "list_all (\<lambda>i. lo \<le> fst i) free \<Longrightarrow> lo \<le> current \<Longrightarrow>
     list_all (\<lambda>i. lo \<le> fst i) (fst (free_loop busy free current))"
proof (induction busy arbitrary: free current)
  case Nil
  then show ?case by simp
next
  case (Cons b busy)
  obtain s e where b: "b = (s, e)" by (cases b)
  have "list_all (\<lambda>i. lo \<le> fst i) (if s > current then free @ [(current, s)] else free)"
    using Cons.prems by simp
  moreover have "lo \<le> max current e"
    using Cons.prems by simp
  ultimately show ?case
    unfolding b free_loop.simps by (rule Cons.IH)
qed

text \<open>Appended intervals end at the start of a busy interval.\<close>

lemma free_loop_upper:
  "list_all (\<lambda>i. fst i \<le> hi) busy \<Longrightarrow> list_all (\<lambda>i. snd i \<le> hi) free \<Longrightarrow>
     list_all (\<lambda>i. snd i \<le> hi) (fst (free_loop busy free current))"
proof (induction busy arbitrary: free current)
  case Nil
  then show ?case by simp
next
  case (Cons b busy)
  obtain s e where b: "b = (s, e)" by (cases b)
  have "list_all (\<lambda>i. snd i \<le> hi) (if s > current then free @ [(current, s)] else free)"
    using Cons.prems by (simp add: b)
  moreover have "list_all (\<lambda>i. fst i \<le> hi) busy"
    using Cons.prems by simp
  ultimately show ?case
    unfolding b free_loop.simps by (rule Cons.IH [rotated])
qed

text \<open>
  The ordering invariant of the loop, for busy intervals with \<open>start < end\<close>: the free
  list is ordered and every interval of it ends at or before \<^verbatim>\<open>current\<close>.
\<close>

lemma free_loop_ordered:
  "list_all non_empty busy \<Longrightarrow> free_list_inv free \<Longrightarrow>
   list_all (\<lambda>i. snd i \<le> current) free \<Longrightarrow>
     free_list_inv (fst (free_loop busy free current)) \<and>
     list_all (\<lambda>i. snd i \<le> snd (free_loop busy free current)) (fst (free_loop busy free current))"
proof (induction busy arbitrary: free current)
  case Nil
  then show ?case by simp
next
  case (Cons b busy)
  obtain s e where b: "b = (s, e)" by (cases b)
  let ?free = "if s > current then free @ [(current, s)] else free"
  have se: "s < e" using Cons.prems(1) by (simp add: b non_empty_def)
  have 1: "list_all non_empty busy" using Cons.prems(1) by simp
  have 2: "free_list_inv ?free"
    using Cons.prems(2,3)
    by (auto simp add: free_list_inv_def non_empty_def sorted_wrt_append list_all_iff)
  have 3: "list_all (\<lambda>i. snd i \<le> max current e) ?free"
    using Cons.prems(3) se by (auto simp add: list_all_iff)
  show ?case
    unfolding b free_loop.simps by (rule Cons.IH [OF 1 2 3])
qed

text \<open>No interval is appended while every busy interval starts at or before \<^verbatim>\<open>current\<close>.\<close>

lemma free_loop_no_gap:
  "list_all (\<lambda>i. fst i \<le> current) busy \<Longrightarrow> fst (free_loop busy free current) = free"
proof (induction busy arbitrary: free current)
  case Nil
  show ?case by simp
next
  case (Cons b busy)
  obtain s e where b: "b = (s, e)" by (cases b)
  have "list_all (\<lambda>i. fst i \<le> max current e) busy"
    using Cons.prems by (auto simp add: list_all_iff)
  then have "fst (free_loop busy free (max current e)) = free"
    by (rule Cons.IH)
  moreover have "\<not> s > current" using Cons.prems by (simp add: b)
  ultimately show ?case by (simp add: b)
qed

text \<open>
  A sorted busy list that holds the whole working day and no interval starting after
  \<^verbatim>\<open>WORK_END\<close>: the intervals sorted before the whole day start at or before
  \<^verbatim>\<open>WORK_START\<close>, the ones after it at or before \<^verbatim>\<open>WORK_END\<close>, so nothing is appended.
\<close>

lemma free_loop_full_day:
  assumes "sorted busy" and "(WORK_START, WORK_END) \<in> set busy"
    and "list_all (\<lambda>i. fst i \<le> WORK_END) busy" and "WORK_START \<le> current"
  shows "fst (free_loop busy free current) = free \<and> WORK_END \<le> snd (free_loop busy free current)"
  using assms
proof (induction busy arbitrary: current)
  case Nil
  then show ?case by simp
next
  case (Cons b busy)
  obtain s e where b: "b = (s, e)" by (cases b)
  show ?case
  proof (cases "b = (WORK_START, WORK_END)")
    case True
    then have se: "s = WORK_START" "e = WORK_END" using b by simp_all
    have "list_all (\<lambda>i. fst i \<le> max current e) busy"
      using Cons.prems(3) by (auto simp add: list_all_iff se)
    then have "fst (free_loop busy free (max current e)) = free"
      by (rule free_loop_no_gap)
    moreover have "WORK_END \<le> snd (free_loop busy free (max current e))"
      using free_loop_current_mono [of "max current e" busy free] by (simp add: se)
    moreover have "\<not> s > current" using Cons.prems(4) by (simp add: se)
    ultimately show ?thesis by (simp add: b)
  next
    case False
    with Cons.prems(2) have mem: "(WORK_START, WORK_END) \<in> set busy" by simp
    with Cons.prems(1) have "b \<le> (WORK_START, WORK_END)" by auto
    then have "s \<le> WORK_START" by (auto simp add: b)
    with Cons.prems(4) have ns: "\<not> s > current" by simp
    have "fst (free_loop busy free (max current e)) = free \<and>
          WORK_END \<le> snd (free_loop busy free (max current e))"
      using Cons.prems(1,3,4) mem by (intro Cons.IH) simp_all
    with ns show ?thesis by (simp add: b)
  qed
qed

subsection \<open>The resolver\<close>

lemma get_free_slots_non_empty: "list_all non_empty (snd (get_free_slots busy))"
  using free_loop_non_empty [of "[]" "sort busy" WORK_START]
  by (simp add: get_free_slots_snd Let_def non_empty_def)

lemma get_free_slots_lower: "list_all (\<lambda>i. WORK_START \<le> fst i) (snd (get_free_slots busy))"
  using free_loop_lower [of WORK_START "[]" WORK_START "sort busy"]
    free_loop_current_mono [of WORK_START "sort busy" "[]"]
  by (simp add: get_free_slots_snd Let_def)

lemma get_free_slots_upper:
  assumes "list_all (\<lambda>i. fst i \<le> hi) busy" and "WORK_END \<le> hi"
  shows "list_all (\<lambda>i. snd i \<le> hi) (snd (get_free_slots busy))"
proof -
  have "list_all (\<lambda>i. fst i \<le> hi) (sort busy)"
    using assms(1) by (simp add: list_all_sort)
  then have "list_all (\<lambda>i. snd i \<le> hi) (fst (free_loop (sort busy) [] WORK_START))"
    by (rule free_loop_upper) simp
  then show ?thesis
    using assms(2) by (simp add: get_free_slots_snd Let_def)
qed

lemma get_free_slots_ordered:
  assumes "list_all non_empty busy"
  shows "free_list_inv (snd (get_free_slots busy))"
proof -
  let ?r = "free_loop (sort busy) [] WORK_START"
  have "list_all non_empty (sort busy)"
    using assms by (simp add: list_all_sort)
  then have r: "free_list_inv (fst ?r) \<and> list_all (\<lambda>i. snd i \<le> snd ?r) (fst ?r)"
    by (rule free_loop_ordered) (simp_all add: free_list_inv_def)
  then have "free_list_inv (fst ?r @ [(snd ?r, WORK_END)])" if "snd ?r < WORK_END"
    using that by (auto simp add: free_list_inv_def non_empty_def sorted_wrt_append list_all_iff)
  then show ?thesis
    using r by (simp add: get_free_slots_snd Let_def)
qed

lemma get_free_slots_full_day:
  assumes "(WORK_START, WORK_END) \<in> set busy" and "list_all (\<lambda>i. fst i \<le> WORK_END) busy"
  shows "snd (get_free_slots busy) = []"
proof -
  have "fst (free_loop (sort busy) [] WORK_START) = [] \<and>
        WORK_END \<le> snd (free_loop (sort busy) [] WORK_START)"
    using assms by (intro free_loop_full_day) (simp_all add: list_all_iff)
  then show ?thesis by (simp add: get_free_slots_snd Let_def)
qed

text \<open>In an ordered free list the start times increase strictly.\<close>

lemma free_list_inv_starts:
  assumes "free_list_inv free"
  shows "sorted_wrt (<) (map fst free)"
proof -
  have ne: "\<forall>i \<in> set free. fst i < snd i"
    using assms by (auto simp add: free_list_inv_def non_empty_def list_all_iff)
  have "sorted_wrt (\<lambda>a b. fst a < fst b) free"
  proof (rule sorted_wrt_mono_rel)
    show "sorted_wrt ends_before free"
      using assms by (simp add: free_list_inv_def)
  next
    fix a b
    assume "a \<in> set free" and "ends_before a b"
    with ne show "fst a < fst b" by fastforce
  qed
  then show ?thesis by (simp add: sorted_wrt_map)
qed

text \<open>It is then strictly sorted in the order of pairs, and determined by its set.\<close>

lemma free_list_inv_strict:
  assumes "free_list_inv free"
  shows "sorted_wrt (<) free"
proof (rule sorted_wrt_mono_rel)
  show "sorted_wrt ends_before free" using assms by (simp add: free_list_inv_def)
next
  fix a b :: interval
  assume a: "a \<in> set free" and ab: "ends_before a b"
  have "non_empty a"
    using assms a by (simp add: free_list_inv_def list_all_iff)
  then have "fst a < snd a"
    by (simp add: non_empty_def case_prod_beta)
  with ab have "fst a < fst b" by simp
  then show "a < b" by (simp add: less_prod_def)
qed

lemma free_list_inv_unique:
  assumes "free_list_inv xs" and "free_list_inv ys" and "set xs = set ys"
  shows "xs = ys"
  using assms
  by (intro sorted_distinct_set_unique) (auto dest!: free_list_inv_strict simp add: strict_sorted_iff)

subsection \<open>The first loop of \<^verbatim>\<open>find_common_free_time\<close>\<close>

lemma free_of_upd:
  "S m = Some busy \<Longrightarrow> free_of (S(m \<mapsto> sort busy)) m' = free_of S m'"
  by (simp add: free_of_def get_free_slots_sort)

lemma sorted_entries_Cons_None:
  "S m = None \<Longrightarrow> sorted_entries S (m # ms) = sorted_entries S ms"
  by (rule ext) (simp add: sorted_entries_def)

lemma sorted_entries_Cons_Some:
  "S m = Some busy \<Longrightarrow> sorted_entries S (m # ms) = sorted_entries (S(m \<mapsto> sort busy)) ms"
  by (rule ext) (simp add: sorted_entries_def sorted_sort_id)

text \<open>
  The loop leaves the store with the entries of the members sorted, and has appended
  one free list per member, each the one of the member's entry before the call.
\<close>

lemma collect_free_slots_eq:
  "collect_free_slots S ms acc = (sorted_entries S ms, acc @ map (free_of S) ms)"
proof (induction ms arbitrary: S acc)
  case Nil
  show ?case by (simp add: sorted_entries_def)
next
  case (Cons m ms)
  show ?case
  proof (cases "S m")
    case None
    then show ?thesis
      by (simp add: Cons.IH sorted_entries_Cons_None free_of_def split: prod.splits)
  next
    case (Some busy)
    have g: "get_free_slots busy = (sort busy, free_of S m)"
      using Some by (simp add: free_of_def prod_eq_iff get_free_slots_fst)
    have "collect_free_slots S (m # ms) acc
            = collect_free_slots (S(m \<mapsto> sort busy)) ms (acc @ [free_of S m])"
      using Some g by simp
    also have "\<dots> = (sorted_entries (S(m \<mapsto> sort busy)) ms,
                      (acc @ [free_of S m]) @ map (free_of (S(m \<mapsto> sort busy))) ms)"
      by (rule Cons.IH)
    also have "map (free_of (S(m \<mapsto> sort busy))) ms = map (free_of S) ms"
      using Some by (simp add: free_of_upd)
    also have "sorted_entries (S(m \<mapsto> sort busy)) ms = sorted_entries S (m # ms)"
      using Some by (simp add: sorted_entries_Cons_Some)
    finally show ?thesis by simp
  qed
qed

lemma common_free_slots_eq:
  "common_free_slots S ms = (sorted_entries S ms, intersect_all (map (free_of S) ms))"
  by (simp add: common_free_slots_def collect_free_slots_eq)

lemma find_common_free_time_eq:
  "find_common_free_time S ms =
     (sorted_entries S ms,
      case intersect_all (map (free_of S) ms) of
        Inl err \<Rightarrow> Inl err
      | Inr common \<Rightarrow> format_slots common)"
  by (simp add: find_common_free_time_def common_free_slots_eq split: sum.splits)

subsection \<open>The second loop of \<^verbatim>\<open>find_common_free_time\<close>\<close>

lemma inner_row:
  "concat (map (\<lambda>(b_start, b_end).
         (let start = max a_start b_start; end' = min a_end b_end
          in if start < end' then [(start, end')] else [])) slots)
   = filter non_empty (map (meet (a_start, a_end)) slots)"
  by (induction slots) (auto simp add: meet_def non_empty_def Let_def)

lemma intersect_slots_Nil [simp]: "intersect_slots [] slots = []"
  by (simp add: intersect_slots_def)

lemma intersect_slots_Cons:
  "intersect_slots (a # common) slots
     = filter non_empty (map (meet a) slots) @ intersect_slots common slots"
proof (cases a)
  case (Pair a_start a_end)
  show ?thesis
    unfolding Pair intersect_slots_def
    by (simp only: list.map concat.simps case_prod_conv inner_row)
qed

lemma intersect_slots_Nil2 [simp]: "intersect_slots common [] = []"
  by (induction common) (simp_all add: intersect_slots_Cons)

lemma in_intersect_slots:
  "x \<in> set (intersect_slots common slots)
     \<longleftrightarrow> (\<exists>a \<in> set common. \<exists>b \<in> set slots. x = meet a b \<and> non_empty x)"
proof (induction common)
  case Nil
  show ?case by simp
next
  case (Cons a common)
  have "x \<in> set (filter non_empty (map (meet a) slots))
          \<longleftrightarrow> (\<exists>b \<in> set slots. x = meet a b \<and> non_empty x)"
    by (simp add: image_iff)
  with Cons.IH show ?case
    by (simp add: intersect_slots_Cons) blast
qed

lemma ends_before_meet: "ends_before x y \<Longrightarrow> ends_before (meet a x) (meet a y)"
  by (simp add: meet_def min_le_iff_disj le_max_iff_disj)

lemma row_ordered:
  assumes "sorted_wrt ends_before slots"
  shows "sorted_wrt ends_before (filter non_empty (map (meet a) slots))"
proof -
  have "sorted_wrt (\<lambda>x y. ends_before (meet a x) (meet a y)) slots"
    using assms by (rule sorted_wrt_mono_rel [rotated]) (rule ends_before_meet)
  then have "sorted_wrt ends_before (map (meet a) slots)"
    by (simp add: sorted_wrt_map)
  then show ?thesis by (rule sorted_wrt_filter)
qed

text \<open>
  One round keeps the order: the nested iteration, outer over \<^verbatim>\<open>common\<close> and inner
  over \<^verbatim>\<open>slots\<close>, lists the intersections from left to right when both lists are
  ordered.
\<close>

lemma intersect_slots_ordered:
  assumes "sorted_wrt ends_before common" and "sorted_wrt ends_before slots"
  shows "free_list_inv (intersect_slots common slots)"
proof -
  have ne: "list_all non_empty (intersect_slots common slots)"
    by (simp add: list_all_iff in_intersect_slots)
  have "sorted_wrt ends_before (intersect_slots common slots)"
    using assms(1)
  proof (induction common)
    case Nil
    show ?case by simp
  next
    case (Cons a common)
    have "ends_before x y"
      if xin: "x \<in> set (filter non_empty (map (meet a) slots))"
        and yin: "y \<in> set (intersect_slots common slots)" for x y
    proof -
      from xin have "x \<in> meet a ` set slots" by simp
      then obtain b where x: "x = meet a b" by (rule imageE)
      obtain a' b' where y: "y = meet a' b'" and a': "a' \<in> set common"
        using yin by (simp add: in_intersect_slots) blast
      have "ends_before a a'" using Cons.prems a' by simp
      then show ?thesis by (simp add: x y meet_def min_le_iff_disj le_max_iff_disj)
    qed
    moreover have "sorted_wrt ends_before (intersect_slots common slots)"
      using Cons by simp
    ultimately show ?case
      using row_ordered [OF assms(2), of a]
      by (simp add: intersect_slots_Cons sorted_wrt_append)
  qed
  with ne show ?thesis by (simp add: free_list_inv_def)
qed

lemma meet_rotate: "meet (meet a b) c = meet (meet c b) a"
  by (simp add: meet_def max.commute max.left_commute min.commute min.left_commute)

lemma non_empty_meet_left: "non_empty (meet (meet a b) c) \<Longrightarrow> non_empty (meet a b)"
  by (simp add: meet_def non_empty_def)

text \<open>Two rounds list the non-empty intersections of one interval from each list.\<close>

lemma in_intersect_three:
  "x \<in> set (intersect_slots (intersect_slots A B) C)
     \<longleftrightarrow> (\<exists>a \<in> set A. \<exists>b \<in> set B. \<exists>c \<in> set C. x = meet (meet a b) c \<and> non_empty x)"
  (is "?L \<longleftrightarrow> ?R")
proof
  assume ?L
  then obtain ab c where ab: "ab \<in> set (intersect_slots A B)" and c: "c \<in> set C"
    and x: "x = meet ab c" and ne: "non_empty x"
    unfolding in_intersect_slots [of x "intersect_slots A B" C] by blast
  from ab obtain a b where "a \<in> set A" "b \<in> set B" "ab = meet a b"
    unfolding in_intersect_slots [of ab A B] by blast
  with c x ne show ?R by blast
next
  assume ?R
  then obtain a b c where m: "a \<in> set A" "b \<in> set B" "c \<in> set C"
    and x: "x = meet (meet a b) c" and ne: "non_empty x" by blast
  from ne x have "non_empty (meet a b)" by (simp add: non_empty_meet_left)
  with m have "meet a b \<in> set (intersect_slots A B)"
    by (simp add: in_intersect_slots) blast
  with m x ne show ?L
    unfolding in_intersect_slots [of x "intersect_slots A B" C] by blast
qed

lemma in_intersect_three_rev:
  assumes "x \<in> set (intersect_slots (intersect_slots A B) C)"
  shows "x \<in> set (intersect_slots (intersect_slots C B) A)"
proof -
  from assms obtain a b c where m: "a \<in> set A" "b \<in> set B" "c \<in> set C"
    and x: "x = meet (meet a b) c" and ne: "non_empty x"
    unfolding in_intersect_three by blast
  from x have "x = meet (meet c b) a" by (simp only: meet_rotate)
  with m ne show ?thesis
    unfolding in_intersect_three by blast
qed

lemma set_intersect_three_rev:
  "set (intersect_slots (intersect_slots A B) C) = set (intersect_slots (intersect_slots C B) A)"
  by (intro equalityI subsetI) (erule in_intersect_three_rev)+

text \<open>An empty free list anywhere makes the fold return the empty list.\<close>

lemma foldl_intersect_Nil: "foldl intersect_slots [] rest = []"
  by (induction rest) simp_all

lemma foldl_intersect_empty:
  "[] \<in> set rest \<Longrightarrow> foldl intersect_slots first rest = []"
proof (induction rest arbitrary: first)
  case Nil
  then show ?case by simp
next
  case (Cons slots rest)
  show ?case
  proof (cases "slots = []")
    case True
    then show ?thesis by (simp add: foldl_intersect_Nil)
  next
    case False
    with Cons.prems have "[] \<in> set rest" by auto
    then show ?thesis by (simp add: Cons.IH)
  qed
qed

lemma intersect_all_empty:
  assumes "[] \<in> set all_free_slots"
  shows "intersect_all all_free_slots = Inr []"
proof (cases all_free_slots)
  case Nil
  with assms show ?thesis by simp
next
  case (Cons first rest)
  show ?thesis
  proof (cases "first = []")
    case True
    then show ?thesis by (simp add: Cons intersect_all_def foldl_intersect_Nil)
  next
    case False
    with assms Cons have "[] \<in> set rest" by auto
    then show ?thesis by (simp add: Cons intersect_all_def foldl_intersect_empty)
  qed
qed

section \<open>The claims\<close>

text \<open>
  C1 (as amended). Starting from the empty store, after
  \<^verbatim>\<open>add_busy_time("Alice", 10, 11)\<close>, \<^verbatim>\<open>add_busy_time("Alice", 14, 16)\<close>,
  \<^verbatim>\<open>add_busy_time("Bob", 9, 10)\<close> and \<^verbatim>\<open>add_busy_time("Bob", 13, 15)\<close>, the call
  \<^verbatim>\<open>find_common_free_time(["Alice", "Bob"])\<close> returns exactly the two strings
  "11:00-13:00" and "16:00-18:00" (with en dashes): Alice is busy from 10 to 11, so
  the first common interval starts at 11.
\<close>

theorem alice_bob_common_free_time:
  "snd (find_common_free_time alice_bob [''Alice'', ''Bob''])
     = Inr [''11:00'' @ en_dash @ ''13:00'', ''16:00'' @ en_dash @ ''18:00'']"
  by (simp add: alice_bob_store evals)

text \<open>
  C1 as the specification states it, with "10:00-13:00" as the first string, does not
  hold of the code.
\<close>

theorem alice_bob_not_from_ten:
  "snd (find_common_free_time alice_bob [''Alice'', ''Bob''])
     \<noteq> Inr [''10:00'' @ en_dash @ ''13:00'', ''16:00'' @ en_dash @ ''18:00'']"
  by (simp add: alice_bob_store evals)

text \<open>
  C2 (as amended). For every non-empty members sequence whose common free-interval
  intersection is empty, \<^verbatim>\<open>find_common_free_time\<close> returns the empty sequence; the
  sentence that no common free time was found is produced by \<^verbatim>\<open>meeting_message\<close>,
  which tests the returned list for emptiness.
\<close>

theorem empty_intersection_returns_empty_list:
  assumes "members \<noteq> []" and "snd (common_free_slots SCHEDULES members) = Inr []"
  shows "snd (find_common_free_time SCHEDULES members) = Inr [] \<and>
         snd (meeting_message SCHEDULES members) = Inr no_common_message"
  using assms(2)
  by (simp add: meeting_message_def find_common_free_time_eq common_free_slots_eq)

text \<open>
  Witness for C2: Alice is free from 13 and Bob until 13, so their intersection is
  empty.
\<close>

theorem empty_intersection_returns_empty_list_witness:
  "[''Alice'', ''Bob''] \<noteq> [] \<and>
   snd (common_free_slots [''Alice'' \<mapsto> [(9, 13)], ''Bob'' \<mapsto> [(13, 18)]] [''Alice'', ''Bob''])
     = Inr [] \<and>
   snd (find_common_free_time [''Alice'' \<mapsto> [(9, 13)], ''Bob'' \<mapsto> [(13, 18)]] [''Alice'', ''Bob''])
     = Inr [] \<and>
   snd (meeting_message [''Alice'' \<mapsto> [(9, 13)], ''Bob'' \<mapsto> [(13, 18)]] [''Alice'', ''Bob''])
     = Inr no_common_message"
proof -
  have c: "snd (common_free_slots [''Alice'' \<mapsto> [(9, 13)], ''Bob'' \<mapsto> [(13, 18)]]
             [''Alice'', ''Bob'']) = Inr []"
    by (simp add: evals)
  show ?thesis
    using c empty_intersection_returns_empty_list
      [of "[''Alice'', ''Bob'']" "[''Alice'' \<mapsto> [(9, 13)], ''Bob'' \<mapsto> [(13, 18)]]"]
    by simp
qed

text \<open>
  C2 as stated fails: for one member who is busy all day the intersection is empty and
  the call returns the empty sequence, not a sequence of one message.
\<close>

theorem empty_intersection_no_message:
  "[''Alice''] \<noteq> [] \<and>
   snd (common_free_slots [''Alice'' \<mapsto> [(9, 18)]] [''Alice'']) = Inr [] \<and>
   snd (find_common_free_time [''Alice'' \<mapsto> [(9, 18)]] [''Alice'']) = Inr []"
  by (simp add: evals)

text \<open>
  C3 (as amended). \<^verbatim>\<open>find_common_free_time\<close> changes the store only by sorting: the
  store after the call is the store before the call with the list of every listed
  member that has an entry replaced by its ascending sort, so that no entry is added
  or removed and the list of every person not listed is unchanged; and
  \<^verbatim>\<open>get_free_slots\<close> leaves the list it is given sorted, holding the same intervals
  with the same multiplicities.
\<close>

theorem find_common_free_time_sorts_entries:
  "fst (find_common_free_time SCHEDULES members)
     = (\<lambda>name. if name \<in> set members then map_option sort (SCHEDULES name) else SCHEDULES name) \<and>
   dom (fst (find_common_free_time SCHEDULES members)) = dom SCHEDULES \<and>
   fst (get_free_slots busy) = sort busy \<and>
   mset (fst (get_free_slots busy)) = mset busy"
  by (auto simp add: find_common_free_time_eq sorted_entries_def get_free_slots_fst dom_def)

text \<open>
  C3 as stated fails: after \<^verbatim>\<open>add_busy_time("Alice", 14, 16)\<close> and
  \<^verbatim>\<open>add_busy_time("Alice", 10, 11)\<close> the call \<^verbatim>\<open>find_common_free_time(["Alice"])\<close>
  leaves Alice's list in the other order, and \<^verbatim>\<open>get_free_slots\<close> has changed the
  list it was given.
\<close>

theorem find_common_free_time_reorders_store:
  "fst (find_common_free_time [''Alice'' \<mapsto> [(14, 16), (10, 11)]] [''Alice'']) ''Alice''
     = Some [(10, 11), (14, 16)] \<and>
   fst (find_common_free_time [''Alice'' \<mapsto> [(14, 16), (10, 11)]] [''Alice''])
     \<noteq> [''Alice'' \<mapsto> [(14, 16), (10, 11)]] \<and>
   fst (get_free_slots [(14, 16), (10, 11)]) \<noteq> [(14, 16), (10, 11)]"
  by (simp add: find_common_free_time_eq sorted_entries_def get_free_slots_fst fun_eq_iff)

text \<open>
  C4. For the empty members sequence the first loop appends nothing, reading element
  zero of the empty list of free lists raises \<^verbatim>\<open>IndexError\<close>, and that error is the
  outcome of \<^verbatim>\<open>find_common_free_time\<close>, whatever the store holds.
\<close>

theorem find_common_free_time_no_members:
  "collect_free_slots SCHEDULES [] [] = (SCHEDULES, []) \<and>
   intersect_all [] = Inl IndexError \<and>
   find_common_free_time SCHEDULES [] = (SCHEDULES, Inl IndexError)"
  by (simp add: find_common_free_time_def common_free_slots_def intersect_all_def)

text \<open>
  C5. For every busy list, of any integer pairs, every interval of the resolver's
  output has \<open>start < end\<close>; and when every busy interval is clamped to the working
  day (\<open>WORK_START \<le> start < end \<le> WORK_END\<close>), every output interval lies within
  \<open>[WORK_START, WORK_END]\<close>.
\<close>

theorem resolver_intervals_bounded:
  "list_all non_empty (snd (get_free_slots busy)) \<and>
   (list_all clamped busy \<longrightarrow>
      list_all (within WORK_START WORK_END) (snd (get_free_slots busy)))"
proof (intro conjI impI)
  show "list_all non_empty (snd (get_free_slots busy))"
    by (rule get_free_slots_non_empty)
next
  assume "list_all clamped busy"
  then have "list_all (\<lambda>i. fst i \<le> WORK_END) busy"
    by (auto simp add: list_all_iff clamped_def)
  then have "list_all (\<lambda>i. snd i \<le> WORK_END) (snd (get_free_slots busy))"
    by (rule get_free_slots_upper) simp
  with get_free_slots_lower [of busy]
  show "list_all (within WORK_START WORK_END) (snd (get_free_slots busy))"
    by (auto simp add: list_all_iff within_def)
qed

text \<open>Witness for C5: an unsorted busy list inside the working day.\<close>

theorem resolver_intervals_bounded_witness:
  "list_all clamped [(14, 16), (10, 11)] \<and>
   snd (get_free_slots [(14, 16), (10, 11)]) = [(9, 10), (11, 14), (16, 18)] \<and>
   list_all non_empty (snd (get_free_slots [(14, 16), (10, 11)])) \<and>
   list_all (within WORK_START WORK_END) (snd (get_free_slots [(14, 16), (10, 11)]))"
  using resolver_intervals_bounded [of "[(14, 16), (10, 11)]"]
  by (simp add: clamped_def evals)

text \<open>
  C6 (as amended). For every busy list of well-formed intervals
  (\<open>0 \<le> start < end \<le> 24\<close>) the resolver's output is sorted by start time, its
  intervals are non-empty, strictly increasing and non-overlapping, and each lies
  between \<open>WORK_START\<close> and 24; each lies within the working day when in addition no
  busy interval starts after \<open>WORK_END\<close>.
\<close>

theorem resolver_free_list:
  assumes "list_all well_formed busy"
  shows "free_list_inv (snd (get_free_slots busy)) \<and>
         sorted_wrt (<) (map fst (snd (get_free_slots busy))) \<and>
         list_all (within WORK_START 24) (snd (get_free_slots busy)) \<and>
         (list_all (\<lambda>(start, end'). start \<le> WORK_END) busy \<longrightarrow>
            list_all (within WORK_START WORK_END) (snd (get_free_slots busy)))"
proof -
  let ?free = "snd (get_free_slots busy)"
  have "list_all non_empty busy"
    using assms by (auto simp add: list_all_iff well_formed_def non_empty_def)
  then have inv: "free_list_inv ?free"
    by (rule get_free_slots_ordered)
  have "list_all (\<lambda>i. fst i \<le> 24) busy"
    using assms by (auto simp add: list_all_iff well_formed_def)
  then have "list_all (\<lambda>i. snd i \<le> 24) ?free"
    by (rule get_free_slots_upper) (simp add: WORK_END_def)
  with get_free_slots_lower [of busy]
  have day: "list_all (within WORK_START 24) ?free"
    by (auto simp add: list_all_iff within_def)
  have "list_all (within WORK_START WORK_END) ?free"
    if "list_all (\<lambda>(start, end'). start \<le> WORK_END) busy"
  proof -
    have "list_all (\<lambda>i. fst i \<le> WORK_END) busy"
      using that by (simp add: list_all_iff case_prod_beta)
    then have "list_all (\<lambda>i. snd i \<le> WORK_END) ?free"
      by (rule get_free_slots_upper) simp
    with get_free_slots_lower [of busy] show ?thesis
      by (auto simp add: list_all_iff within_def)
  qed
  with inv day free_list_inv_starts [OF inv] show ?thesis by simp
qed

text \<open>
  Witness for C6: an unsorted list of well-formed intervals, one of them after the
  working day; the last free interval ends at 20.
\<close>

theorem resolver_free_list_witness:
  "list_all well_formed [(14, 16), (10, 11), (20, 22)] \<and>
   snd (get_free_slots [(14, 16), (10, 11), (20, 22)]) = [(9, 10), (11, 14), (16, 20)] \<and>
   free_list_inv (snd (get_free_slots [(14, 16), (10, 11), (20, 22)])) \<and>
   list_all (within WORK_START 24) (snd (get_free_slots [(14, 16), (10, 11), (20, 22)]))"
  using resolver_free_list [of "[(14, 16), (10, 11), (20, 22)]"]
  by (simp add: well_formed_def evals)

text \<open>
  C6 as stated fails: the well-formed busy interval from 20 to 22 makes the resolver
  return the interval from 9 to 20, which is not inside the working day.
\<close>

theorem resolver_beyond_work_end:
  "list_all well_formed [(20, 22)] \<and>
   snd (get_free_slots [(20, 22)]) = [(9, 20)] \<and>
   \<not> list_all (within WORK_START WORK_END) (snd (get_free_slots [(20, 22)]))"
  by (simp add: well_formed_def within_def evals)

text \<open>
  C7. The fold is order-independent on three free lists: when each of \<open>A\<close>, \<open>B\<close> and
  \<open>C\<close> is ordered (non-empty intervals, each ending no later than the next starts),
  folding \<open>[A, B, C]\<close> from the left gives the same list as folding \<open>[C, B, A]\<close>.
\<close>

theorem intersect_all_order_independent:
  assumes "free_list_inv A" and "free_list_inv B" and "free_list_inv C"
  shows "intersect_all [A, B, C] = intersect_all [C, B, A]"
proof -
  have o: "sorted_wrt ends_before A" "sorted_wrt ends_before B" "sorted_wrt ends_before C"
    using assms by (simp_all add: free_list_inv_def)
  have AB: "sorted_wrt ends_before (intersect_slots A B)"
    and CB: "sorted_wrt ends_before (intersect_slots C B)"
    using intersect_slots_ordered [OF o(1) o(2)] intersect_slots_ordered [OF o(3) o(2)]
    by (simp_all add: free_list_inv_def)
  have "intersect_slots (intersect_slots A B) C = intersect_slots (intersect_slots C B) A"
    using intersect_slots_ordered [OF AB o(3)] intersect_slots_ordered [OF CB o(1)]
      set_intersect_three_rev [of A B C]
    by (rule free_list_inv_unique)
  then show ?thesis by (simp add: intersect_all_def)
qed

text \<open>Witness for C7: three free lists of the working day and their common part.\<close>

theorem intersect_all_order_independent_witness:
  "free_list_inv [(9, 10), (11, 14), (16, 18)] \<and> free_list_inv [(10, 13), (15, 18)] \<and>
   free_list_inv [(9, 12), (17, 18)] \<and>
   intersect_all [[(9, 10), (11, 14), (16, 18)], [(10, 13), (15, 18)], [(9, 12), (17, 18)]]
     = Inr [(11, 12), (17, 18)] \<and>
   intersect_all [[(9, 12), (17, 18)], [(10, 13), (15, 18)], [(9, 10), (11, 14), (16, 18)]]
     = Inr [(11, 12), (17, 18)]"
  using intersect_all_order_independent
    [of "[(9, 10), (11, 14), (16, 18)]" "[(10, 13), (15, 18)]" "[(9, 12), (17, 18)]"]
  by (simp add: free_list_inv_def non_empty_def intersect_all_def intersect_slots_def)

text \<open>
  C8. The resolver maps the empty busy list to the single interval of the whole
  working day, and for a store with no entry for "NewPerson" the call
  \<^verbatim>\<open>find_common_free_time(["NewPerson"])\<close> returns exactly the one string
  "9:00-18:00" (with an en dash), leaving the store as it was.
\<close>

theorem new_person_full_day:
  "SCHEDULES ''NewPerson'' = None \<Longrightarrow>
     snd (get_free_slots []) = [(WORK_START, WORK_END)] \<and>
     find_common_free_time SCHEDULES [''NewPerson'']
       = (SCHEDULES, Inr [''9:00'' @ en_dash @ ''18:00''])"
  by (simp add: evals)

text \<open>Witness for C8: the empty store.\<close>

theorem new_person_full_day_witness:
  "(Map.empty :: schedules) ''NewPerson'' = None \<and>
     snd (get_free_slots []) = [(WORK_START, WORK_END)] \<and>
     find_common_free_time Map.empty [''NewPerson'']
       = (Map.empty, Inr [''9:00'' @ en_dash @ ''18:00''])"
  using new_person_full_day [of Map.empty] by simp

text \<open>
  C9 (as amended). For every members sequence containing some participant whose busy
  list includes the interval from 9 to 18 and has no interval starting after
  \<open>WORK_END\<close>, the common intersection is empty, \<^verbatim>\<open>find_common_free_time\<close> returns the
  empty list and \<^verbatim>\<open>meeting_message\<close> returns the fixed message.
\<close>

theorem full_day_busy_no_common_time:
  assumes "member \<in> set members" and "SCHEDULES member = Some busy"
    and "(WORK_START, WORK_END) \<in> set busy"
    and "list_all (\<lambda>(start, end'). start \<le> WORK_END) busy"
  shows "snd (common_free_slots SCHEDULES members) = Inr [] \<and>
         snd (find_common_free_time SCHEDULES members) = Inr [] \<and>
         snd (meeting_message SCHEDULES members) = Inr no_common_message"
proof -
  have "list_all (\<lambda>i. fst i \<le> WORK_END) busy"
    using assms(4) by (simp add: list_all_iff case_prod_beta)
  with assms(3) have "snd (get_free_slots busy) = []"
    by (rule get_free_slots_full_day)
  then have "free_of SCHEDULES member = []"
    using assms(2) by (simp add: free_of_def)
  with assms(1) have "[] \<in> set (map (free_of SCHEDULES) members)"
    by (simp add: image_iff) (metis)
  then have "intersect_all (map (free_of SCHEDULES) members) = Inr []"
    by (rule intersect_all_empty)
  then show ?thesis
    by (simp add: meeting_message_def find_common_free_time_eq common_free_slots_eq)
qed

text \<open>Witness for C9: Bob is busy all day, with a second, unsorted entry.\<close>

theorem full_day_busy_no_common_time_witness:
  "''Bob'' \<in> set [''Alice'', ''Bob''] \<and>
   [''Alice'' \<mapsto> [(10, 11)], ''Bob'' \<mapsto> [(12, 13), (9, 18)]] ''Bob'' = Some [(12, 13), (9, 18)] \<and>
   (WORK_START, WORK_END) \<in> set [(12, 13), (9, 18)] \<and>
   list_all (\<lambda>(start, end'). start \<le> WORK_END) [(12, 13), (9, 18)] \<and>
   snd (common_free_slots [''Alice'' \<mapsto> [(10, 11)], ''Bob'' \<mapsto> [(12, 13), (9, 18)]]
     [''Alice'', ''Bob'']) = Inr [] \<and>
   snd (meeting_message [''Alice'' \<mapsto> [(10, 11)], ''Bob'' \<mapsto> [(12, 13), (9, 18)]]
     [''Alice'', ''Bob'']) = Inr no_common_message"
  using full_day_busy_no_common_time [of "''Bob''" "[''Alice'', ''Bob'']"
      "[''Alice'' \<mapsto> [(10, 11)], ''Bob'' \<mapsto> [(12, 13), (9, 18)]]" "[(12, 13), (9, 18)]"]
  by (simp add: WORK_START_def WORK_END_def)

text \<open>
  C9 as stated fails: Bob is busy from 9 to 18 and from 20 to 21. His free list is
  the interval from 18 to 20, the common intersection for Bob alone is that interval,
  and \<^verbatim>\<open>meeting_message\<close> announces it.
\<close>

theorem full_day_busy_late_interval:
  "''Bob'' \<in> set [''Bob''] \<and>
   (WORK_START, WORK_END) \<in> set [(9, 18), (20, 21)] \<and>
   snd (common_free_slots [''Bob'' \<mapsto> [(9, 18), (20, 21)]] [''Bob'']) = Inr [(18, 20)] \<and>
   snd (meeting_message [''Bob'' \<mapsto> [(9, 18), (20, 21)]] [''Bob''])
     = Inr (''All members (Bob) are available at the following times: 18:00'' @ en_dash
            @ ''20:00. Please confirm which slot works best.'') \<and>
   snd (meeting_message [''Bob'' \<mapsto> [(9, 18), (20, 21)]] [''Bob'']) \<noteq> Inr no_common_message"
  by (simp add: meeting_message_def no_common_message_def en_dash_def evals)

text \<open>
  C10 (as amended). For every store, name and pair of integers, malformed pairs
  included, the frame of \<^verbatim>\<open>add_busy_time\<close> is exact: afterwards the list of \<open>name\<close>
  is its previous list (the empty list if \<open>name\<close> had no entry) with \<open>(start, end)\<close>
  appended last, and the entry of every other name is unchanged. The call returns its
  confirmation string when \<open>start\<close> and \<open>end\<close> have at most 4300 decimal digits each,
  and otherwise raises \<^verbatim>\<open>ValueError\<close> from the f-string, after the append.
\<close>

theorem add_busy_time_frame:
  "fst (add_busy_time SCHEDULES name start end') name
     = Some ((case SCHEDULES name of None \<Rightarrow> [] | Some busy \<Rightarrow> busy) @ [(start, end')]) \<and>
   (\<forall>other. other \<noteq> name \<longrightarrow>
      fst (add_busy_time SCHEDULES name start end') other = SCHEDULES other) \<and>
   snd (add_busy_time SCHEDULES name start end')
     = (if \<bar>start\<bar> < 10 ^ MAX_STR_DIGITS \<and> \<bar>end'\<bar> < 10 ^ MAX_STR_DIGITS
        then Inr (''Added busy time for '' @ name @ '': '' @ decimal start @ '':00'' @ en_dash
                  @ decimal end' @ '':00'')
        else Inl ValueError)"
proof (intro conjI allI impI)
  show "fst (add_busy_time SCHEDULES name start end') name
     = Some ((case SCHEDULES name of None \<Rightarrow> [] | Some busy \<Rightarrow> busy) @ [(start, end')])"
    by (cases "SCHEDULES name") (auto simp add: add_busy_time_def Let_def)
next
  fix other :: string
  assume "other \<noteq> name"
  then show "fst (add_busy_time SCHEDULES name start end') other = SCHEDULES other"
    by (cases "SCHEDULES name") (auto simp add: add_busy_time_def Let_def)
next
  have "format_slot (start, end')
          = (if \<bar>start\<bar> < 10 ^ MAX_STR_DIGITS \<and> \<bar>end'\<bar> < 10 ^ MAX_STR_DIGITS
             then Inr (decimal start @ '':00'' @ en_dash @ decimal end' @ '':00'')
             else Inl ValueError)"
    by (simp add: format_slot_def str_int_def not_le)
  then show "snd (add_busy_time SCHEDULES name start end')
     = (if \<bar>start\<bar> < 10 ^ MAX_STR_DIGITS \<and> \<bar>end'\<bar> < 10 ^ MAX_STR_DIGITS
        then Inr (''Added busy time for '' @ name @ '': '' @ decimal start @ '':00'' @ en_dash
                  @ decimal end' @ '':00'')
        else Inl ValueError)"
    by (cases "SCHEDULES name") (auto simp add: add_busy_time_def Let_def)
qed

text \<open>
  Witness for C10: a malformed pair of small hours for a name that has no entry yet.
\<close>

theorem add_busy_time_frame_witness:
  "fst (add_busy_time [''Bob'' \<mapsto> [(9, 10)]] ''Alice'' 12 10) ''Alice'' = Some [(12, 10)] \<and>
   ''Bob'' \<noteq> ''Alice'' \<and>
   fst (add_busy_time [''Bob'' \<mapsto> [(9, 10)]] ''Alice'' 12 10) ''Bob'' = Some [(9, 10)] \<and>
   \<bar>12 :: int\<bar> < 10 ^ MAX_STR_DIGITS \<and> \<bar>10 :: int\<bar> < 10 ^ MAX_STR_DIGITS \<and>
   snd (add_busy_time [''Bob'' \<mapsto> [(9, 10)]] ''Alice'' 12 10)
     = Inr (''Added busy time for Alice: 12:00'' @ en_dash @ ''10:00'')"
proof -
  have small: "\<bar>12 :: int\<bar> < 10 ^ MAX_STR_DIGITS" "\<bar>10 :: int\<bar> < 10 ^ MAX_STR_DIGITS"
    using within_limit [of 12] within_limit [of 10] by simp_all
  show ?thesis
    using small add_busy_time_frame [of "[''Bob'' \<mapsto> [(9, 10)]]" "''Alice''" 12 10]
    by (simp add: decimal_def str_nat.simps digit_char_def)
qed

text \<open>
  C10 as stated fails: the append is followed by the formatting of \<open>start\<close> and \<open>end\<close>,
  and for an \<open>end\<close> of 4301 digits the call raises \<^verbatim>\<open>ValueError\<close>. The pair has been
  appended by then.
\<close>

theorem add_busy_time_huge_end:
  "snd (add_busy_time Map.empty ''Alice'' 9 (10 ^ MAX_STR_DIGITS)) = Inl ValueError \<and>
   fst (add_busy_time Map.empty ''Alice'' 9 (10 ^ MAX_STR_DIGITS)) ''Alice''
     = Some [(9, 10 ^ MAX_STR_DIGITS)]"
  by (simp add: add_busy_time_def format_slot_def str_int_small str_int_def)

end
